theory Spec2Isabelle
  imports Main "HOL-Library.Word"
begin

section \<open>The deploy bot of \<open>deploy/src/index.ts\<close>\<close>

text \<open>
  The bot polls a CI service for the newest successful workflow run, downloads its
  \<open>place-file\<close> artifact, extracts \<open>place.rbxl\<close> from it and publishes it, keeping a
  \<open>DeployState\<close> in memory and in a state file. The model below follows
  \<open>index.ts\<close> function by function. The module-level variable \<open>state\<close> and the state
  file are passed explicitly; every answer of the outside world during one call of
  \<open>processNewRun\<close> (the CI service, the archive extraction, the publish endpoint, the
  clock, the file system) is a field of a \<open>World\<close> value, so that a rejected promise or a
  thrown exception is a value the model branches on.
\<close>

subsection \<open>Data\<close>

text \<open>A thrown exception or rejected promise; every \<open>try\<close> of the source catches all of them alike.\<close>

datatype js_error = Thrown

type_synonym Buffer = "8 word list"

text \<open>
  An entry of \<open>deploymentHistory\<close>. The optional field \<open>error\<close> is \<open>undefined\<close> (here
  \<open>None\<close>) for a successful publish.
\<close>

record DeploymentRecord =
  runId :: int
  deployedAt :: string
  commitSha :: string
  success :: bool
  error :: "string option"

text \<open>\<open>interface DeployState\<close>; \<open>null\<close> is \<open>None\<close>.\<close>

record DeployState =
  lastProcessedRunId :: "int option"
  lastDeployedAt :: "string option"
  deploymentHistory :: "DeploymentRecord list"

text \<open>
  A workflow run as the CI service returns it. The source reads \<open>id\<close> and \<open>head_sha\<close>;
  \<open>head_branch\<close> and \<open>updated_at\<close> are only printed. The field \<open>id\<close> is named
  \<open>run_id\<close> here, since \<open>id\<close> is the identity function of HOL.
\<close>

record WorkflowRun =
  run_id :: int
  head_sha :: string

text \<open>An artifact of a run (\<open>id\<close> is named \<open>artifact_id\<close>).\<close>

record Artifact =
  name :: string
  artifact_id :: int
  size_in_bytes :: int

text \<open>
  The response of the publish endpoint: the flag \<open>ok\<close>, the status, and the two body
  readers \<open>response.text()\<close> and \<open>response.json()\<close>, each of which may reject.
\<close>

record Response =
  ok :: bool
  status :: int
  body_text :: "js_error + string"
  body_json :: "js_error + string"

text \<open>
  What the outside world answers during one call of \<open>processNewRun\<close>:
  \<^item> \<open>listWorkflowRunsForRepo\<close>: the page of completed, successful runs, newest first;
  \<^item> \<open>listWorkflowRunArtifacts\<close>, \<open>downloadArtifactData\<close>: the artifact API, by run
    and by artifact identifier;
  \<^item> \<open>unzipPlace\<close>: the body of \<open>extractPlaceFile\<close>'s \<open>try\<close> block, which works through
    a temporary directory and the \<open>unzip\<close> and \<open>rm\<close> commands: \<open>Inl\<close> when any of its
    steps throws, \<open>Inr None\<close> when \<open>place.rbxl\<close> does not exist after unpacking,
    \<open>Inr (Some b)\<close> with the bytes read otherwise;
  \<^item> \<open>fetchPublish\<close>: the POST to the publish endpoint;
  \<^item> \<open>nowISO\<close>: \<open>new Date().toISOString()\<close>;
  \<^item> \<open>writeFileSyncThrows\<close>: whether writing the state file throws.
\<close>

record World =
  listWorkflowRunsForRepo :: "js_error + WorkflowRun list"
  listWorkflowRunArtifacts :: "int \<Rightarrow> js_error + Artifact list"
  downloadArtifactData :: "int \<Rightarrow> js_error + Buffer"
  unzipPlace :: "Buffer \<Rightarrow> js_error + Buffer option"
  fetchPublish :: "Buffer \<Rightarrow> js_error + Response"
  nowISO :: string
  writeFileSyncThrows :: bool

text \<open>
  The variable \<open>state\<close> together with the state file. The file holds
  \<open>JSON.stringify(state)\<close>; the model keeps the state that was serialised, \<open>None\<close> while
  the file does not exist.
\<close>

record Sys =
  state :: DeployState
  stateFile :: "DeployState option"

text \<open>The initial value of \<open>state\<close>.\<close>

definition initialState :: DeployState where
  "initialState =
     \<lparr>lastProcessedRunId = None, lastDeployedAt = None, deploymentHistory = []\<rparr>"

subsection \<open>Operations\<close>

text \<open>\<open>saveState\<close>: a write that throws is logged and changes nothing.\<close>

definition saveState :: "World \<Rightarrow> Sys \<Rightarrow> Sys" where
  "saveState w sys =
     (if writeFileSyncThrows w then sys else sys\<lparr>stateFile := Some (state sys)\<rparr>)"

text \<open>
  \<open>getLatestSuccessfulRun\<close>. The guard
  \<open>state.lastProcessedRunId && latestRun.id <= state.lastProcessedRunId\<close> tests the
  truthiness of the number: \<open>null\<close> and \<open>0\<close> both switch it off.
\<close>

definition getLatestSuccessfulRun :: "World \<Rightarrow> DeployState \<Rightarrow> WorkflowRun option" where
  "getLatestSuccessfulRun w s =
     (case listWorkflowRunsForRepo w of
        Inl e \<Rightarrow> None
      | Inr runs \<Rightarrow>
          (case runs of
             [] \<Rightarrow> None
           | latestRun # older \<Rightarrow>
               (case lastProcessedRunId s of
                  None \<Rightarrow> Some latestRun
                | Some lp \<Rightarrow>
                    if lp \<noteq> 0 \<and> run_id latestRun \<le> lp then None else Some latestRun)))"

text \<open>\<open>downloadArtifact\<close>: \<open>null\<close> is \<open>None\<close>.\<close>

definition downloadArtifact :: "World \<Rightarrow> int \<Rightarrow> Buffer option" where
  "downloadArtifact w rid =
     (case listWorkflowRunArtifacts w rid of
        Inl e \<Rightarrow> None
      | Inr artifacts \<Rightarrow>
          (case find (\<lambda>a. name a = ''place-file'') artifacts of
             None \<Rightarrow> None
           | Some placeArtifact \<Rightarrow>
               (case downloadArtifactData w (artifact_id placeArtifact) of
                  Inl e \<Rightarrow> None
                | Inr artifactData \<Rightarrow> Some artifactData)))"

text \<open>\<open>extractPlaceFile\<close>.\<close>

definition extractPlaceFile :: "World \<Rightarrow> Buffer \<Rightarrow> Buffer option" where
  "extractPlaceFile w zipBuffer =
     (case unzipPlace w zipBuffer of
        Inl e \<Rightarrow> None
      | Inr None \<Rightarrow> None
      | Inr (Some placeBuffer) \<Rightarrow> Some placeBuffer)"

text \<open>
  \<open>publishToRoblox\<close> returns a boolean only: the error text of a rejected request is
  printed and dropped. A response that is \<open>ok\<close> but whose body is not JSON makes
  \<open>response.json()\<close> reject, which the \<open>catch\<close> turns into \<open>false\<close>.
\<close>

definition publishToRoblox :: "World \<Rightarrow> Buffer \<Rightarrow> bool" where
  "publishToRoblox w placeBuffer =
     (case fetchPublish w placeBuffer of
        Inl e \<Rightarrow> False
      | Inr response \<Rightarrow>
          if \<not> ok response then
            (case body_text response of Inl e \<Rightarrow> False | Inr errorText \<Rightarrow> False)
          else
            (case body_json response of Inl e \<Rightarrow> False | Inr result \<Rightarrow> True))"

text \<open>
  \<open>processNewRun\<close> returns nothing; the model returns, with the new system state, the
  branch it took, named after the message printed last.
\<close>

datatype Outcome =
  NoNewRuns
  | SkippedNoArtifact
  | SkippedExtractionFailed
  | DeploymentCompleted bool

text \<open>The object pushed onto \<open>deploymentHistory\<close>.\<close>

definition deploymentRecord :: "WorkflowRun \<Rightarrow> string \<Rightarrow> bool \<Rightarrow> DeploymentRecord" where
  "deploymentRecord run at succ =
     \<lparr>runId = run_id run, deployedAt = at, commitSha = head_sha run, success = succ,
      error = (if succ then None else Some ''Failed to publish to Roblox'')\<rparr>"

text \<open>\<open>xs.slice(-50)\<close> for a list of more than 50 entries, and the truncation step.\<close>

definition keepLast50 :: "'a list \<Rightarrow> 'a list" where
  "keepLast50 xs = (if length xs > 50 then drop (length xs - 50) xs else xs)"

definition setLastProcessed :: "int \<Rightarrow> Sys \<Rightarrow> Sys" where
  "setLastProcessed rid sys = sys\<lparr>state := (state sys)\<lparr>lastProcessedRunId := Some rid\<rparr>\<rparr>"

definition processNewRun :: "World \<Rightarrow> Sys \<Rightarrow> Outcome \<times> Sys" where
  "processNewRun w sys =
     (case getLatestSuccessfulRun w (state sys) of
        None \<Rightarrow> (NoNewRuns, sys)
      | Some run \<Rightarrow>
          (case downloadArtifact w (run_id run) of
             None \<Rightarrow> (SkippedNoArtifact, saveState w (setLastProcessed (run_id run) sys))
           | Some artifactBuffer \<Rightarrow>
               (case extractPlaceFile w artifactBuffer of
                  None \<Rightarrow>
                    (SkippedExtractionFailed, saveState w (setLastProcessed (run_id run) sys))
                | Some placeBuffer \<Rightarrow>
                    (let succ = publishToRoblox w placeBuffer;
                         s = state sys;
                         s' = s\<lparr>lastProcessedRunId := Some (run_id run),
                                lastDeployedAt := Some (nowISO w),
                                deploymentHistory :=
                                  keepLast50
                                    (deploymentHistory s @ [deploymentRecord run (nowISO w) succ])\<rparr>
                     in (DeploymentCompleted succ, saveState w (sys\<lparr>state := s'\<rparr>))))))"

subsection \<open>Successive calls that do not overlap\<close>

text \<open>
  Calls of \<open>processNewRun\<close> that do not overlap: each runs to completion, in its own
  world, before the next one starts. \<open>main\<close> awaits its first call before it arms the
  timer, and timer ticks follow each other in this way as long as every call returns
  before the next tick. The timer itself does not wait: \<open>setInterval\<close> starts a new
  call on every tick, whether or not the previous one has returned. Calls that overlap
  are modelled in the next subsection; \<open>serial_ticks\<close> below shows that \<open>ticks\<close> is
  the special case of that model in which every call is run to its end before the next.
\<close>

fun ticks :: "Sys \<Rightarrow> World list \<Rightarrow> Sys" where
  "ticks sys [] = sys"
| "ticks sys (w # ws) = ticks (snd (processNewRun w sys)) ws"

text \<open>The branch each tick took.\<close>

fun outcomes :: "Sys \<Rightarrow> World list \<Rightarrow> Outcome list" where
  "outcomes sys [] = []"
| "outcomes sys (w # ws) = fst (processNewRun w sys) # outcomes (snd (processNewRun w sys)) ws"

text \<open>
  The identifiers of the runs that \<open>getLatestSuccessfulRun\<close> returns in these calls, in
  the order of the calls. They are the runs for which these calls start an artifact
  download (\<open>serial_attempted\<close> below).
\<close>

fun attempted :: "Sys \<Rightarrow> World list \<Rightarrow> int list" where
  "attempted sys [] = []"
| "attempted sys (w # ws) =
     (case getLatestSuccessfulRun w (state sys) of None \<Rightarrow> [] | Some run \<Rightarrow> [run_id run])
       @ attempted (snd (processNewRun w sys)) ws"

subsection \<open>Calls that overlap\<close>

text \<open>
  \<open>processNewRun\<close> is an \<open>async\<close> function: it gives up control at each \<open>await\<close>, and
  another call started by the timer can run in between. Between two awaits a call runs
  alone. A call in flight is therefore at one of four places:
  \<^item> \<open>AwaitRuns\<close>: it has asked for the list of runs (line 98) and has not yet read
    \<open>state\<close>;
  \<^item> \<open>AwaitArtifact\<close>: the guard of line 114 has let \<open>run\<close> through and
    \<open>downloadArtifact(run.id)\<close> has been called (line 245);
  \<^item> \<open>AwaitExtract\<close>: \<open>extractPlaceFile\<close> has been called on the downloaded archive
    (line 254);
  \<^item> \<open>AwaitPublish\<close>: \<open>publishToRoblox\<close> has been called on the place file (line 265).
  The world of a call holds the answers that this call receives.
\<close>

datatype Pending =
  AwaitRuns World
  | AwaitArtifact World WorkflowRun
  | AwaitExtract World WorkflowRun Buffer
  | AwaitPublish World WorkflowRun Buffer

datatype Progress = Waiting Pending | Returned Outcome

text \<open>
  \<open>resume\<close> runs a call from the await it is waiting at to its next await or to its
  return, on the shared state as it is at that moment. The guard reads \<open>state\<close> when the
  list of runs arrives; the writes to \<open>state\<close> and the save happen in the step that
  returns. Run from start to end without interruption, the four steps are
  \<open>processNewRun\<close> (\<open>awaited_alone\<close> below).
\<close>

fun resume :: "Pending \<Rightarrow> Sys \<Rightarrow> Progress \<times> Sys" where
  "resume (AwaitRuns w) sys =
     (case getLatestSuccessfulRun w (state sys) of
        None \<Rightarrow> (Returned NoNewRuns, sys)
      | Some run \<Rightarrow> (Waiting (AwaitArtifact w run), sys))"
| "resume (AwaitArtifact w run) sys =
     (case downloadArtifact w (run_id run) of
        None \<Rightarrow> (Returned SkippedNoArtifact, saveState w (setLastProcessed (run_id run) sys))
      | Some artifactBuffer \<Rightarrow> (Waiting (AwaitExtract w run artifactBuffer), sys))"
| "resume (AwaitExtract w run artifactBuffer) sys =
     (case extractPlaceFile w artifactBuffer of
        None \<Rightarrow>
          (Returned SkippedExtractionFailed, saveState w (setLastProcessed (run_id run) sys))
      | Some placeBuffer \<Rightarrow> (Waiting (AwaitPublish w run placeBuffer), sys))"
| "resume (AwaitPublish w run placeBuffer) sys =
     (let succ = publishToRoblox w placeBuffer;
          s = state sys;
          s' = s\<lparr>lastProcessedRunId := Some (run_id run),
                 lastDeployedAt := Some (nowISO w),
                 deploymentHistory :=
                   keepLast50 (deploymentHistory s @ [deploymentRecord run (nowISO w) succ])\<rparr>
      in (Returned (DeploymentCompleted succ), saveState w (sys\<lparr>state := s'\<rparr>)))"

text \<open>
  The calls a step makes to the pipeline, each with the identifier of the run it is
  made for.
\<close>

datatype Effect = DownloadArtifact int | ExtractPlaceFile int | PublishToRoblox int

fun effectRun :: "Effect \<Rightarrow> int" where
  "effectRun (DownloadArtifact rid) = rid"
| "effectRun (ExtractPlaceFile rid) = rid"
| "effectRun (PublishToRoblox rid) = rid"

text \<open>The runs for which an artifact download was started, in order.\<close>

fun downloads :: "Effect list \<Rightarrow> int list" where
  "downloads [] = []"
| "downloads (DownloadArtifact rid # es) = rid # downloads es"
| "downloads (ExtractPlaceFile rid # es) = downloads es"
| "downloads (PublishToRoblox rid # es) = downloads es"

text \<open>
  Three readings of a call in flight: the pipeline call it has just made, the run it
  carries, its world.
\<close>

fun called :: "Pending \<Rightarrow> Effect list" where
  "called (AwaitRuns w) = []"
| "called (AwaitArtifact w run) = [DownloadArtifact (run_id run)]"
| "called (AwaitExtract w run artifactBuffer) = [ExtractPlaceFile (run_id run)]"
| "called (AwaitPublish w run placeBuffer) = [PublishToRoblox (run_id run)]"

fun candidate :: "Pending \<Rightarrow> WorkflowRun option" where
  "candidate (AwaitRuns w) = None"
| "candidate (AwaitArtifact w run) = Some run"
| "candidate (AwaitExtract w run artifactBuffer) = Some run"
| "candidate (AwaitPublish w run placeBuffer) = Some run"


text \<open>
  The whole program at one moment: the shared state and file, the calls in flight, and
  the pipeline calls made so far, oldest first.
\<close>

record Config =
  shared :: Sys
  pending :: "Pending list"
  effects :: "Effect list"

text \<open>
  What can happen next: \<open>processNewRun\<close> is called (by \<open>main\<close> or by the timer) and runs
  up to its first await, or the awaited promise of the call in flight at position \<open>i\<close>
  settles and that call runs on. A call that returns leaves the list.
\<close>

datatype Event = Invoke World | Resolve nat

fun step :: "Config \<Rightarrow> Event \<Rightarrow> Config" where
  "step c (Invoke w) = c\<lparr>pending := pending c @ [AwaitRuns w]\<rparr>"
| "step c (Resolve i) =
     (if i < length (pending c) then
        (case resume (pending c ! i) (shared c) of
           (Waiting p, sys) \<Rightarrow>
             c\<lparr>shared := sys, pending := (pending c)[i := p],
               effects := effects c @ called p\<rparr>
         | (Returned out, sys) \<Rightarrow>
             c\<lparr>shared := sys, pending := take i (pending c) @ drop (Suc i) (pending c)\<rparr>)
      else c)"

fun execute :: "Config \<Rightarrow> Event list \<Rightarrow> Config" where
  "execute c [] = c"
| "execute c (e # es) = execute (step c e) es"

text \<open>
  A call that is awaited: it is started and resumed until it has returned (a call has at
  most four awaits; resuming position 0 when nothing is in flight does nothing).
  \<open>startup\<close> is \<open>main\<close>'s first call, made with nothing else in flight, before the
  timer is armed (lines 303 and 306).
\<close>

definition awaited :: "World \<Rightarrow> Event list" where
  "awaited w = [Invoke w, Resolve 0, Resolve 0, Resolve 0, Resolve 0]"

definition idle :: "Sys \<Rightarrow> Config" where
  "idle sys = \<lparr>shared = sys, pending = [], effects = []\<rparr>"

definition startup :: "World \<Rightarrow> Sys \<Rightarrow> Config" where
  "startup w sys = execute (idle sys) (awaited w)"

text \<open>
  Some call in flight has passed the guard with a run whose identifier is at most \<open>k\<close>
  and has not yet returned.
\<close>

definition olderInFlight :: "int \<Rightarrow> Config \<Rightarrow> bool" where
  "olderInFlight k c =
     list_ex (\<lambda>p. case candidate p of None \<Rightarrow> False | Some run \<Rightarrow> run_id run \<le> k) (pending c)"

subsection \<open>Sample worlds\<close>

definition sampleRun :: "int \<Rightarrow> WorkflowRun" where
  "sampleRun n = \<lparr>run_id = n, head_sha = ''abc1234''\<rparr>"

definition placeArtifact :: Artifact where
  "placeArtifact = \<lparr>name = ''place-file'', artifact_id = 1, size_in_bytes = 2\<rparr>"

definition okResponse :: Response where
  "okResponse = \<lparr>ok = True, status = 200, body_text = Inr ''{}'', body_json = Inr ''{}''\<rparr>"

definition rejectResponse :: Response where
  "rejectResponse =
     \<lparr>ok = False, status = 403, body_text = Inr ''Invalid API key'', body_json = Inl Thrown\<rparr>"

text \<open>A world in which the runs \<open>ids\<close> are listed and every later step succeeds.\<close>

definition deployWorld :: "int list \<Rightarrow> World" where
  "deployWorld ids =
     \<lparr>listWorkflowRunsForRepo = Inr (map sampleRun ids),
      listWorkflowRunArtifacts = (\<lambda>rid. Inr [placeArtifact]),
      downloadArtifactData = (\<lambda>aid. Inr [80, 75]),
      unzipPlace = (\<lambda>b. Inr (Some [60, 114])),
      fetchPublish = (\<lambda>b. Inr okResponse),
      nowISO = ''2024-01-01T00:00:00.000Z'',
      writeFileSyncThrows = False\<rparr>"

text \<open>Variations: the run listing throws; no artifact; extraction fails; publish rejected.\<close>

definition throwingWorld :: World where
  "throwingWorld = (deployWorld [])\<lparr>listWorkflowRunsForRepo := Inl Thrown\<rparr>"

definition noArtifactWorld :: "int list \<Rightarrow> World" where
  "noArtifactWorld ids = (deployWorld ids)\<lparr>listWorkflowRunArtifacts := (\<lambda>rid. Inr [])\<rparr>"

definition badZipWorld :: "int list \<Rightarrow> World" where
  "badZipWorld ids = (deployWorld ids)\<lparr>unzipPlace := (\<lambda>b. Inr None)\<rparr>"

definition rejectWorld :: "int list \<Rightarrow> World" where
  "rejectWorld ids = (deployWorld ids)\<lparr>fetchPublish := (\<lambda>b. Inr rejectResponse)\<rparr>"

definition freshSys :: Sys where
  "freshSys = \<lparr>state = initialState, stateFile = None\<rparr>"

text \<open>Sixty ticks, each listing a new newest run that deploys.\<close>

definition sixtyWorlds :: "World list" where
  "sixtyWorlds = map (\<lambda>n. deployWorld [n, n - 1]) [1..60]"

text \<open>
  Sample schedules. \<open>laterEvents\<close>: timer ticks that overlap, two of them with run 9 as
  their newest run. \<open>deploying7\<close>: a call for run 7 that waits for its publish to
  answer; \<open>afterEvents\<close>: overlapping ticks after it. \<open>overlapEvents\<close>: a tick for run 7
  is still downloading when the next tick finds run 8, which has no artifact, and returns.
\<close>

definition laterEvents :: "Event list" where
  "laterEvents =
     [Invoke (deployWorld [9]), Invoke (deployWorld [11, 10, 9]), Resolve 1, Resolve 0,
      Invoke (deployWorld [9, 8]), Resolve 0, Resolve 1, Resolve 0, Resolve 0, Resolve 0]"



definition overlapEvents :: "Event list" where
  "overlapEvents =
     [Invoke (deployWorld [7, 6]), Resolve 0,
      Invoke (noArtifactWorld [8, 7, 6]), Resolve 1, Resolve 1]"

subsection \<open>Notions used to state the properties\<close>

text \<open>The runs a world lists (none when the listing throws).\<close>

definition listed :: "World \<Rightarrow> WorkflowRun list" where
  "listed w = (case listWorkflowRunsForRepo w of Inl e \<Rightarrow> [] | Inr runs \<Rightarrow> runs)"

text \<open>
  The history entry of a successful deployment of the newest run a world lists.
\<close>

definition expectedRecord :: "World \<Rightarrow> DeploymentRecord option" where
  "expectedRecord w =
     (case listWorkflowRunsForRepo w of
        Inl e \<Rightarrow> None
      | Inr [] \<Rightarrow> None
      | Inr (latestRun # older) \<Rightarrow> Some (deploymentRecord latestRun (nowISO w) True))"

text \<open>
  The invariant of overlapping calls: \<open>lastProcessedRunId\<close> is a number of at least \<open>k\<close>,
  no call in flight carries a run with identifier at most \<open>k\<close>, and every history entry
  is in \<open>H\<close> or is for a run above \<open>k\<close>.
\<close>

definition settled :: "int \<Rightarrow> DeploymentRecord set \<Rightarrow> Config \<Rightarrow> bool" where
  "settled k H c \<longleftrightarrow>
     (\<exists>v. lastProcessedRunId (state (shared c)) = Some v \<and> k \<le> v)
     \<and> \<not> olderInFlight k c
     \<and> (\<forall>r \<in> set (deploymentHistory (state (shared c))). r \<in> H \<or> k < runId r)"

section \<open>Properties\<close>

subsection \<open>Basic facts\<close>

text \<open>Saving touches the file only; marking a run as processed touches one field.\<close>

lemma state_saveState [simp]: "state (saveState w sys) = state sys"
  by (simp add: saveState_def)

lemma state_setLastProcessed [simp]:
  "state (setLastProcessed rid sys) = (state sys)\<lparr>lastProcessedRunId := Some rid\<rparr>"
  by (simp add: setLastProcessed_def)

text \<open>
  What \<open>getLatestSuccessfulRun\<close> returns is the head of the listing, and it is above
  \<open>lastProcessedRunId\<close> whenever that is a number other than \<open>0\<close>.
\<close>

lemma getLatest_listed:
  assumes "getLatestSuccessfulRun w s = Some run"
  shows "\<exists>older. listWorkflowRunsForRepo w = Inr (run # older)"
  using assms
  by (auto simp: getLatestSuccessfulRun_def split: sum.splits list.splits option.splits if_splits)

lemma getLatest_guard:
  assumes "getLatestSuccessfulRun w s = Some run" and "lastProcessedRunId s = Some lp" and "lp \<noteq> 0"
  shows "lp < run_id run"
  using assms
  by (auto simp: getLatestSuccessfulRun_def split: sum.splits list.splits option.splits if_splits)

text \<open>The four ways through \<open>processNewRun\<close>.\<close>

lemma processNewRun_cases:
  obtains
    (NoNew) "getLatestSuccessfulRun w (state sys) = None"
      "processNewRun w sys = (NoNewRuns, sys)"
  | (NoArtifact) run where "getLatestSuccessfulRun w (state sys) = Some run"
      "downloadArtifact w (run_id run) = None"
      "processNewRun w sys = (SkippedNoArtifact, saveState w (setLastProcessed (run_id run) sys))"
  | (BadZip) run zipBuffer where "getLatestSuccessfulRun w (state sys) = Some run"
      "downloadArtifact w (run_id run) = Some zipBuffer" "extractPlaceFile w zipBuffer = None"
      "processNewRun w sys =
         (SkippedExtractionFailed, saveState w (setLastProcessed (run_id run) sys))"
  | (Publish) run zipBuffer placeBuffer where "getLatestSuccessfulRun w (state sys) = Some run"
      "downloadArtifact w (run_id run) = Some zipBuffer" "extractPlaceFile w zipBuffer = Some placeBuffer"
      "processNewRun w sys =
         (DeploymentCompleted (publishToRoblox w placeBuffer),
          saveState w (sys\<lparr>state := (state sys)
            \<lparr>lastProcessedRunId := Some (run_id run),
             lastDeployedAt := Some (nowISO w),
             deploymentHistory :=
               keepLast50 (deploymentHistory (state sys)
                 @ [deploymentRecord run (nowISO w) (publishToRoblox w placeBuffer)])\<rparr>\<rparr>))"
proof (cases "getLatestSuccessfulRun w (state sys)")
  case None
  then show ?thesis using NoNew by (simp add: processNewRun_def)
next
  case (Some run)
  note run = this
  show ?thesis
  proof (cases "downloadArtifact w (run_id run)")
    case None
    then show ?thesis using NoArtifact [of run] run by (simp add: processNewRun_def)
  next
    case (Some zipBuffer)
    note zipBuffer = this
    show ?thesis
    proof (cases "extractPlaceFile w zipBuffer")
      case None
      then show ?thesis using BadZip [of run zipBuffer] run zipBuffer by (simp add: processNewRun_def)
    next
      case (Some placeBuffer)
      then show ?thesis using Publish [of run zipBuffer placeBuffer] run zipBuffer
        by (simp add: processNewRun_def Let_def)
    qed
  qed
qed

lemma processNewRun_NoNew:
  "getLatestSuccessfulRun w (state sys) = None \<Longrightarrow> processNewRun w sys = (NoNewRuns, sys)"
  by (simp add: processNewRun_def)

lemma lastProcessed_after_candidate:
  assumes "getLatestSuccessfulRun w (state sys) = Some run"
  shows "lastProcessedRunId (state (snd (processNewRun w sys))) = Some (run_id run)"
  using assms by (cases w sys rule: processNewRun_cases) auto

lemma history_after_skip:
  assumes "fst (processNewRun w sys) = SkippedNoArtifact
    \<or> fst (processNewRun w sys) = SkippedExtractionFailed"
  shows "deploymentHistory (state (snd (processNewRun w sys))) = deploymentHistory (state sys)
    \<and> lastDeployedAt (state (snd (processNewRun w sys))) = lastDeployedAt (state sys)"
  using assms by (cases w sys rule: processNewRun_cases) auto

lemma outcome_Completed:
  assumes "fst (processNewRun w sys) = DeploymentCompleted b"
  obtains run zipBuffer placeBuffer where "getLatestSuccessfulRun w (state sys) = Some run"
    and "downloadArtifact w (run_id run) = Some zipBuffer"
    and "extractPlaceFile w zipBuffer = Some placeBuffer"
    and "publishToRoblox w placeBuffer = b"
    and "state (snd (processNewRun w sys)) = (state sys)
            \<lparr>lastProcessedRunId := Some (run_id run),
             lastDeployedAt := Some (nowISO w),
             deploymentHistory :=
               keepLast50 (deploymentHistory (state sys) @ [deploymentRecord run (nowISO w) b])\<rparr>"
  using assms by (cases w sys rule: processNewRun_cases) auto

lemma reaches_publish:
  assumes "getLatestSuccessfulRun w (state sys) = Some run"
    and "downloadArtifact w (run_id run) = Some zipBuffer"
    and "extractPlaceFile w zipBuffer = Some placeBuffer"
  shows "processNewRun w sys =
         (DeploymentCompleted (publishToRoblox w placeBuffer),
          saveState w (sys\<lparr>state := (state sys)
            \<lparr>lastProcessedRunId := Some (run_id run),
             lastDeployedAt := Some (nowISO w),
             deploymentHistory :=
               keepLast50 (deploymentHistory (state sys)
                 @ [deploymentRecord run (nowISO w) (publishToRoblox w placeBuffer)])\<rparr>\<rparr>))"
  using assms by (simp add: processNewRun_def Let_def)

text \<open>The truncation of the history.\<close>

lemma keepLast50_length: "length (keepLast50 xs) \<le> 50"
  by (simp add: keepLast50_def)

lemma keepLast50_snoc_last: "last (keepLast50 (xs @ [x])) = x"
  by (simp add: keepLast50_def)

lemma keepLast50_single: "keepLast50 [x] = [x]"
  by (simp add: keepLast50_def)

lemma keepLast50_drop: "keepLast50 xs = drop (length xs - 50) xs"
  by (simp add: keepLast50_def)

lemma keepLast50_map: "keepLast50 (map f xs) = map f (keepLast50 xs)"
  by (simp add: keepLast50_drop drop_map)

lemma keepLast50_absorb: "keepLast50 (keepLast50 (xs @ [x]) @ ys) = keepLast50 (xs @ x # ys)"
proof -
  have "length xs + length ys - (length xs - 49 + 49) + (length xs - 49)
      = length xs + length ys - 49"
    by arith
  then show ?thesis
    by (simp add: keepLast50_drop)
qed

text \<open>Successive ticks.\<close>

lemma quiet_ticks:
  assumes "\<forall>w \<in> set ws. getLatestSuccessfulRun w (state sys) = None"
  shows "ticks sys ws = sys \<and> outcomes sys ws = replicate (length ws) NoNewRuns
    \<and> attempted sys ws = []"
  using assms by (induction ws) (auto simp: processNewRun_NoNew)

lemma length_outcomes: "length (outcomes sys ws) = length ws"
  by (induction ws arbitrary: sys) auto

lemma step_monotone:
  assumes "lastProcessedRunId (state sys) = Some lp"
    and "\<forall>r \<in> set (listed w). 0 < run_id r"
  shows "\<exists>lp'. lastProcessedRunId (state (snd (processNewRun w sys))) = Some lp' \<and> lp \<le> lp'"
proof (cases "getLatestSuccessfulRun w (state sys)")
  case None
  then have "processNewRun w sys = (NoNewRuns, sys)"
    by (rule processNewRun_NoNew)
  with assms(1) show ?thesis by simp
next
  case (Some run)
  from getLatest_listed [OF Some] have "run \<in> set (listed w)"
    by (auto simp: listed_def)
  with assms(2) have pos: "0 < run_id run" by blast
  have "lp \<le> run_id run"
  proof (cases "lp = 0")
    case True
    with pos show ?thesis by simp
  next
    case False
    from getLatest_guard [OF Some assms(1) False] show ?thesis by simp
  qed
  with lastProcessed_after_candidate [OF Some] show ?thesis by simp
qed

lemma ticks_monotone:
  assumes "lastProcessedRunId (state sys) = Some lp"
    and "\<forall>w \<in> set ws. \<forall>r \<in> set (listed w). 0 < run_id r"
  shows "\<exists>lp'. lastProcessedRunId (state (ticks sys ws)) = Some lp' \<and> lp \<le> lp'"
  using assms
proof (induction ws arbitrary: sys lp)
  case Nil
  then show ?case by simp
next
  case (Cons w ws)
  from step_monotone [OF Cons.prems(1), of w] Cons.prems(2)
  obtain lp1 where 1: "lastProcessedRunId (state (snd (processNewRun w sys))) = Some lp1"
    and 2: "lp \<le> lp1"
    by auto
  from Cons.IH [OF 1] Cons.prems(2)
  obtain lp' where "lastProcessedRunId (state (ticks (snd (processNewRun w sys)) ws)) = Some lp'"
    and "lp1 \<le> lp'"
    by auto
  with 2 show ?case by auto
qed

lemma step_history_bound:
  assumes "length (deploymentHistory (state sys)) \<le> 50"
  shows "length (deploymentHistory (state (snd (processNewRun w sys)))) \<le> 50"
  using assms by (cases w sys rule: processNewRun_cases) (auto simp: keepLast50_length)

lemma history_of_deployments:
  assumes "outcomes sys ws = replicate n (DeploymentCompleted True)"
  shows "map Some (deploymentHistory (state (ticks sys ws)))
    = (if ws = [] then map Some (deploymentHistory (state sys))
       else keepLast50 (map Some (deploymentHistory (state sys)) @ map expectedRecord ws))"
  using assms
proof (induction ws arbitrary: sys n)
  case Nil
  then show ?case by simp
next
  case (Cons w ws)
  let ?sys' = "snd (processNewRun w sys)"
  from Cons.prems obtain m where n: "n = Suc m"
    by (cases n) auto
  with Cons.prems have out: "fst (processNewRun w sys) = DeploymentCompleted True"
    and rest: "outcomes ?sys' ws = replicate m (DeploymentCompleted True)"
    by simp_all
  from out obtain run where cand: "getLatestSuccessfulRun w (state sys) = Some run"
    and hist: "deploymentHistory (state ?sys')
      = keepLast50 (deploymentHistory (state sys) @ [deploymentRecord run (nowISO w) True])"
    by (elim outcome_Completed) simp
  from getLatest_listed [OF cand]
  have exp: "expectedRecord w = Some (deploymentRecord run (nowISO w) True)"
    by (auto simp: expectedRecord_def)
  have first: "map Some (deploymentHistory (state ?sys'))
      = keepLast50 (map Some (deploymentHistory (state sys)) @ [expectedRecord w])"
    by (simp add: hist exp keepLast50_map [symmetric])
  show ?case
  proof (cases "ws = []")
    case True
    with first show ?thesis by simp
  next
    case False
    with Cons.IH [OF rest] first show ?thesis
      by (simp add: keepLast50_absorb)
  qed
qed

text \<open>Overlapping calls: a call run alone is \<open>processNewRun\<close>, and the invariant.\<close>

lemma execute_append: "execute c (es1 @ es2) = execute (execute c es1) es2"
  by (induction es1 arbitrary: c) auto

lemma awaited_alone:
  assumes "pending c = []"
  shows "shared (execute c (awaited w)) = snd (processNewRun w (shared c))
    \<and> pending (execute c (awaited w)) = []
    \<and> effects (execute c (awaited w)) = effects c @
        (case getLatestSuccessfulRun w (state (shared c)) of
           None \<Rightarrow> []
         | Some r \<Rightarrow> DownloadArtifact (run_id r) #
             (case downloadArtifact w (run_id r) of
                None \<Rightarrow> []
              | Some zipBuffer \<Rightarrow> ExtractPlaceFile (run_id r) #
                  (case extractPlaceFile w zipBuffer of
                     None \<Rightarrow> []
                   | Some placeBuffer \<Rightarrow> [PublishToRoblox (run_id r)])))"
  using assms
  by (cases w "shared c" rule: processNewRun_cases) (simp_all add: awaited_def Let_def)

lemma serial_ticks:
  assumes "pending c = []"
  shows "shared (execute c (concat (map awaited ws))) = ticks (shared c) ws
    \<and> pending (execute c (concat (map awaited ws))) = []"
  using assms
proof (induction ws arbitrary: c)
  case Nil
  then show ?case by simp
next
  case (Cons w ws)
  from awaited_alone [OF Cons.prems, of w]
  have 1: "shared (execute c (awaited w)) = snd (processNewRun w (shared c))"
    and 2: "pending (execute c (awaited w)) = []"
    by simp_all
  from Cons.IH [OF 2] 1 show ?case
    by (simp add: execute_append)
qed

lemma downloads_append: "downloads (es1 @ es2) = downloads es1 @ downloads es2"
  by (induction es1 rule: downloads.induct) auto

lemma serial_attempted:
  assumes "pending c = []"
  shows "downloads (effects (execute c (concat (map awaited ws))))
    = downloads (effects c) @ attempted (shared c) ws"
  using assms
proof (induction ws arbitrary: c)
  case Nil
  then show ?case by simp
next
  case (Cons w ws)
  note a = awaited_alone [OF Cons.prems, of w]
  from a have 1: "shared (execute c (awaited w)) = snd (processNewRun w (shared c))"
    and 2: "pending (execute c (awaited w)) = []"
    by simp_all
  from a have 3: "downloads (effects (execute c (awaited w)))
      = downloads (effects c)
        @ (case getLatestSuccessfulRun w (state (shared c)) of
             None \<Rightarrow> [] | Some run \<Rightarrow> [run_id run])"
    by (simp add: downloads_append split: option.splits)
  from Cons.IH [OF 2] 1 3 show ?case
    by (simp add: execute_append)
qed

lemma startup_alone:
  "shared (startup w sys) = snd (processNewRun w sys)
   \<and> pending (startup w sys) = []
   \<and> (\<forall>e \<in> set (effects (startup w sys)).
        \<exists>cand. getLatestSuccessfulRun w (state sys) = Some cand \<and> effectRun e = run_id cand)"
  using awaited_alone [of "idle sys" w]
  by (auto simp: startup_def idle_def split: option.splits)

lemma olderInFlight_iff:
  "olderInFlight k c \<longleftrightarrow>
     (\<exists>p \<in> set (pending c). \<exists>r. candidate p = Some r \<and> run_id r \<le> k)"
  by (auto simp: olderInFlight_def list_ex_iff split: option.splits)

lemma set_keepLast50: "set (keepLast50 xs) \<subseteq> set xs"
  by (auto simp: keepLast50_def dest: in_set_dropD)

lemma set_remove_nth: "set (take i xs @ drop (Suc i) xs) \<subseteq> set xs"
  by (auto dest: in_set_takeD in_set_dropD)

lemma history_after_call:
  assumes "r \<in> set (deploymentHistory (state (snd (processNewRun w sys))))"
  shows "r \<in> set (deploymentHistory (state sys))
    \<or> (\<exists>cand. getLatestSuccessfulRun w (state sys) = Some cand \<and> runId r = run_id cand)"
proof (cases w sys rule: processNewRun_cases)
  case (Publish cand zipBuffer placeBuffer)
  define rec where "rec = deploymentRecord cand (nowISO w) (publishToRoblox w placeBuffer)"
  from assms Publish(4) set_keepLast50 [of "deploymentHistory (state sys) @ [rec]"]
  have "r \<in> set (deploymentHistory (state sys)) \<or> r = rec"
    by (auto simp: rec_def)
  moreover have "runId rec = run_id cand"
    by (simp add: rec_def deploymentRecord_def)
  ultimately show ?thesis using Publish(1) by auto
qed (insert assms, auto)


lemma resume_settled:
  assumes lp: "lastProcessedRunId (state sys) = Some v" and kv: "k \<le> v" and pos: "0 < k"
    and above: "\<forall>r. candidate p = Some r \<longrightarrow> k < run_id r"
    and hist: "\<forall>r \<in> set (deploymentHistory (state sys)). r \<in> H \<or> k < runId r"
    and res: "resume p sys = (prog, sys')"
  shows "(\<exists>v'. lastProcessedRunId (state sys') = Some v' \<and> k \<le> v')
    \<and> (\<forall>r \<in> set (deploymentHistory (state sys')). r \<in> H \<or> k < runId r)
    \<and> (\<forall>p'. prog = Waiting p' \<longrightarrow>
          (\<forall>r. candidate p' = Some r \<longrightarrow> k < run_id r)
          \<and> (\<forall>e \<in> set (called p'). k < effectRun e))"
proof (cases p)
  case (AwaitRuns w)
  show ?thesis
  proof (cases "getLatestSuccessfulRun w (state sys)")
    case None
    with AwaitRuns res have "sys' = sys" and "prog = Returned NoNewRuns" by simp_all
    with lp kv hist show ?thesis by simp
  next
    case (Some r)
    from pos kv have "v \<noteq> 0" by simp
    from getLatest_guard [OF Some lp this] kv have gt: "k < run_id r" by simp
    from AwaitRuns Some res have "sys' = sys" and "prog = Waiting (AwaitArtifact w r)"
      by simp_all
    with lp kv hist gt show ?thesis by simp
  qed
next
  case (AwaitArtifact w r)
  with above have gt: "k < run_id r" by simp
  show ?thesis
  proof (cases "downloadArtifact w (run_id r)")
    case None
    with AwaitArtifact res have "state sys' = (state sys)\<lparr>lastProcessedRunId := Some (run_id r)\<rparr>"
      and "prog = Returned SkippedNoArtifact" by auto
    with hist gt show ?thesis by simp
  next
    case (Some b)
    with AwaitArtifact res have "sys' = sys" and "prog = Waiting (AwaitExtract w r b)"
      by simp_all
    with lp kv hist gt show ?thesis by simp
  qed
next
  case (AwaitExtract w r b)
  with above have gt: "k < run_id r" by simp
  show ?thesis
  proof (cases "extractPlaceFile w b")
    case None
    with AwaitExtract res have "state sys' = (state sys)\<lparr>lastProcessedRunId := Some (run_id r)\<rparr>"
      and "prog = Returned SkippedExtractionFailed" by auto
    with hist gt show ?thesis by simp
  next
    case (Some b')
    with AwaitExtract res have "sys' = sys" and "prog = Waiting (AwaitPublish w r b')"
      by simp_all
    with lp kv hist gt show ?thesis by simp
  qed
next
  case (AwaitPublish w r b)
  with above have gt: "k < run_id r" by simp
  define rec where "rec = deploymentRecord r (nowISO w) (publishToRoblox w b)"
  have recId: "runId rec = run_id r"
    by (simp add: rec_def deploymentRecord_def)
  from AwaitPublish res
  have lp': "lastProcessedRunId (state sys') = Some (run_id r)"
    and h': "deploymentHistory (state sys') = keepLast50 (deploymentHistory (state sys) @ [rec])"
    and prog: "prog = Returned (DeploymentCompleted (publishToRoblox w b))"
    by (auto simp: Let_def rec_def)
  have "x \<in> H \<or> k < runId x" if "x \<in> set (deploymentHistory (state sys'))" for x
  proof -
    from that h' set_keepLast50 [of "deploymentHistory (state sys) @ [rec]"]
    have "x \<in> set (deploymentHistory (state sys)) \<or> x = rec"
      by auto
    with hist gt recId show ?thesis by auto
  qed
  with lp' gt prog show ?thesis by simp
qed

lemma step_settled:
  assumes inv: "settled k H c" and pos: "0 < k"
  shows "settled k H (step c e)
    \<and> (\<exists>new. effects (step c e) = effects c @ new \<and> (\<forall>x \<in> set new. k < effectRun x))"
proof (cases e)
  case (Invoke w)
  with inv show ?thesis
    by (auto simp: settled_def olderInFlight_iff)
next
  case (Resolve i)
  show ?thesis
  proof (cases "i < length (pending c)")
    case False
    with Resolve inv show ?thesis by simp
  next
    case True
    obtain prog sys' where res: "resume (pending c ! i) (shared c) = (prog, sys')"
      by (cases "resume (pending c ! i) (shared c)") auto
    from inv obtain v where lp: "lastProcessedRunId (state (shared c)) = Some v" and kv: "k \<le> v"
      and hist: "\<forall>r \<in> set (deploymentHistory (state (shared c))). r \<in> H \<or> k < runId r"
      and rest: "\<forall>p \<in> set (pending c). \<forall>r. candidate p = Some r \<longrightarrow> k < run_id r"
      by (auto simp: settled_def olderInFlight_iff not_le)
    from True have "pending c ! i \<in> set (pending c)"
      by simp
    with rest have above: "\<forall>r. candidate (pending c ! i) = Some r \<longrightarrow> k < run_id r"
      by blast
    note r = resume_settled [OF lp kv pos above hist res]
    show ?thesis
    proof (cases prog)
      case (Returned out)
      with Resolve True res
      have c': "step c e = c\<lparr>shared := sys',
          pending := take i (pending c) @ drop (Suc i) (pending c)\<rparr>"
        by simp
      from rest set_remove_nth [of i "pending c"]
      have "\<forall>p \<in> set (take i (pending c) @ drop (Suc i) (pending c)).
          \<forall>r. candidate p = Some r \<longrightarrow> k < run_id r"
        by blast
      with r show ?thesis
        unfolding c' by (simp add: settled_def olderInFlight_iff not_le)
    next
      case (Waiting p')
      with Resolve True res
      have c': "step c e = c\<lparr>shared := sys', pending := (pending c)[i := p'],
          effects := effects c @ called p'\<rparr>"
        by simp
      from r Waiting have p': "\<forall>r. candidate p' = Some r \<longrightarrow> k < run_id r"
        and eff: "\<forall>x \<in> set (called p'). k < effectRun x"
        by simp_all
      from rest p' set_update_subset_insert [of "pending c" i p']
      have "\<forall>p \<in> set ((pending c)[i := p']). \<forall>r. candidate p = Some r \<longrightarrow> k < run_id r"
        by blast
      with r eff show ?thesis
        unfolding c' by (simp add: settled_def olderInFlight_iff not_le)
    qed
  qed
qed

lemma execute_settled:
  assumes "settled k H c" and "0 < k"
  shows "settled k H (execute c es)
    \<and> (\<exists>new. effects (execute c es) = effects c @ new \<and> (\<forall>x \<in> set new. k < effectRun x))"
  using assms(1)
proof (induction es arbitrary: c)
  case Nil
  then show ?case by simp
next
  case (Cons e es)
  from step_settled [OF Cons.prems assms(2), of e]
  obtain new1 where 1: "settled k H (step c e)"
    and 2: "effects (step c e) = effects c @ new1" and 3: "\<forall>x \<in> set new1. k < effectRun x"
    by blast
  from Cons.IH [OF 1]
  obtain new2 where 4: "settled k H (execute (step c e) es)"
    and 5: "effects (execute (step c e) es) = effects (step c e) @ new2"
    and 6: "\<forall>x \<in> set new2. k < effectRun x"
    by blast
  from 2 5 have "effects (execute c (e # es)) = effects c @ (new1 @ new2)"
    by simp
  moreover from 3 6 have "\<forall>x \<in> set (new1 @ new2). k < effectRun x"
    by auto
  ultimately show ?case using 4 by (simp del: append_assoc)
qed

text \<open>The sample worlds, evaluated.\<close>

lemmas world_simps = deployWorld_def rejectWorld_def noArtifactWorld_def badZipWorld_def
  throwingWorld_def sampleRun_def placeArtifact_def okResponse_def rejectResponse_def
  freshSys_def initialState_def

lemmas op_simps = processNewRun_def getLatestSuccessfulRun_def downloadArtifact_def
  extractPlaceFile_def publishToRoblox_def saveState_def setLastProcessed_def
  deploymentRecord_def keepLast50_def Let_def

lemma reject_tick:
  "processNewRun (rejectWorld [5]) freshSys =
    (DeploymentCompleted False,
     \<lparr>state = \<lparr>lastProcessedRunId = Some 5, lastDeployedAt = Some ''2024-01-01T00:00:00.000Z'',
        deploymentHistory = [\<lparr>runId = 5, deployedAt = ''2024-01-01T00:00:00.000Z'',
          commitSha = ''abc1234'', success = False,
          error = Some ''Failed to publish to Roblox''\<rparr>]\<rparr>,
      stateFile = Some \<lparr>lastProcessedRunId = Some 5,
        lastDeployedAt = Some ''2024-01-01T00:00:00.000Z'',
        deploymentHistory = [\<lparr>runId = 5, deployedAt = ''2024-01-01T00:00:00.000Z'',
          commitSha = ''abc1234'', success = False,
          error = Some ''Failed to publish to Roblox''\<rparr>]\<rparr>\<rparr>)"
  by (simp add: world_simps op_simps)

lemma noArtifact_tick:
  "processNewRun (noArtifactWorld [7]) freshSys =
    (SkippedNoArtifact,
     \<lparr>state = \<lparr>lastProcessedRunId = Some 7, lastDeployedAt = None, deploymentHistory = []\<rparr>,
      stateFile = Some \<lparr>lastProcessedRunId = Some 7, lastDeployedAt = None,
        deploymentHistory = []\<rparr>\<rparr>)"
  by (simp add: world_simps op_simps)

lemma badZip_tick:
  "processNewRun (badZipWorld [7]) freshSys =
    (SkippedExtractionFailed,
     \<lparr>state = \<lparr>lastProcessedRunId = Some 7, lastDeployedAt = None, deploymentHistory = []\<rparr>,
      stateFile = Some \<lparr>lastProcessedRunId = Some 7, lastDeployedAt = None,
        deploymentHistory = []\<rparr>\<rparr>)"
  by (simp add: world_simps op_simps)

lemma throwing_tick: "processNewRun throwingWorld sys = (NoNewRuns, sys)"
  by (simp add: throwingWorld_def processNewRun_def getLatestSuccessfulRun_def)

lemma deploy_tick_42:
  "processNewRun (deployWorld [42]) freshSys =
    (DeploymentCompleted True,
     \<lparr>state = \<lparr>lastProcessedRunId = Some 42, lastDeployedAt = Some ''2024-01-01T00:00:00.000Z'',
        deploymentHistory = [\<lparr>runId = 42, deployedAt = ''2024-01-01T00:00:00.000Z'',
          commitSha = ''abc1234'', success = True, error = None\<rparr>]\<rparr>,
      stateFile = Some \<lparr>lastProcessedRunId = Some 42,
        lastDeployedAt = Some ''2024-01-01T00:00:00.000Z'',
        deploymentHistory = [\<lparr>runId = 42, deployedAt = ''2024-01-01T00:00:00.000Z'',
          commitSha = ''abc1234'', success = True, error = None\<rparr>]\<rparr>\<rparr>)"
  by (simp add: world_simps op_simps)

lemma noArtifact_tick_42:
  "processNewRun (noArtifactWorld [42]) freshSys =
    (SkippedNoArtifact,
     \<lparr>state = \<lparr>lastProcessedRunId = Some 42, lastDeployedAt = None, deploymentHistory = []\<rparr>,
      stateFile = Some \<lparr>lastProcessedRunId = Some 42, lastDeployedAt = None,
        deploymentHistory = []\<rparr>\<rparr>)"
  by (simp add: world_simps op_simps)

lemma sixty_outcomes:
  "outcomes freshSys sixtyWorlds = replicate 60 (DeploymentCompleted True)"
  by code_simp

lemma sixty_expected:
  "map (map_option runId) (drop 10 (map expectedRecord sixtyWorlds)) = map Some [11..60]"
  by code_simp

lemma later_evaluated:
  "effects (execute (startup (deployWorld [10, 9]) freshSys) laterEvents)
     = [DownloadArtifact 10, ExtractPlaceFile 10, PublishToRoblox 10,
        DownloadArtifact 11, ExtractPlaceFile 11, PublishToRoblox 11]
   \<and> map runId (deploymentHistory (state (shared
        (execute (startup (deployWorld [10, 9]) freshSys) laterEvents)))) = [10, 11]
   \<and> pending (execute (startup (deployWorld [10, 9]) freshSys) laterEvents) = []"
  by code_simp




subsection \<open>C1: when a history entry is appended\<close>

text \<open>
  C1 says that every tick that processes a candidate appends a history entry with the
  outcome and a reason (``no artifact'', ``extraction failed''), whichever step ends the
  attempt. The code appends an entry only after the publish step: an attempt that ends
  at the artifact download or at the extraction is skipped and leaves the history as it
  was. For a candidate \<open>run\<close>:
  \<^item> no artifact: the history is unchanged;
  \<^item> extraction failed: the history is unchanged;
  \<^item> the publish step is reached: the entry for \<open>run\<close> with the result of the publish is
    appended, the history is cut to its last 50 entries, and the entry is its last one.
\<close>

theorem record_only_when_publish_reached:
  assumes "getLatestSuccessfulRun w (state sys) = Some run"
  shows "(downloadArtifact w (run_id run) = None \<longrightarrow>
            fst (processNewRun w sys) = SkippedNoArtifact
            \<and> deploymentHistory (state (snd (processNewRun w sys)))
                = deploymentHistory (state sys))
    \<and> (\<forall>zipBuffer. downloadArtifact w (run_id run) = Some zipBuffer
            \<and> extractPlaceFile w zipBuffer = None \<longrightarrow>
            fst (processNewRun w sys) = SkippedExtractionFailed
            \<and> deploymentHistory (state (snd (processNewRun w sys)))
                = deploymentHistory (state sys))
    \<and> (\<forall>zipBuffer placeBuffer. downloadArtifact w (run_id run) = Some zipBuffer
            \<and> extractPlaceFile w zipBuffer = Some placeBuffer \<longrightarrow>
            fst (processNewRun w sys) = DeploymentCompleted (publishToRoblox w placeBuffer)
            \<and> deploymentHistory (state (snd (processNewRun w sys)))
                = keepLast50 (deploymentHistory (state sys)
                    @ [deploymentRecord run (nowISO w) (publishToRoblox w placeBuffer)])
            \<and> last (deploymentHistory (state (snd (processNewRun w sys))))
                = deploymentRecord run (nowISO w) (publishToRoblox w placeBuffer))"
  using assms by (cases w sys rule: processNewRun_cases) (auto simp: keepLast50_snoc_last)

text \<open>The three cases at the sample worlds.\<close>

theorem record_only_when_publish_reached_witness:
  "deploymentHistory (state (snd (processNewRun (noArtifactWorld [7]) freshSys))) = []
   \<and> deploymentHistory (state (snd (processNewRun (badZipWorld [7]) freshSys))) = []
   \<and> deploymentHistory (state (snd (processNewRun (rejectWorld [5]) freshSys)))
       = [\<lparr>runId = 5, deployedAt = ''2024-01-01T00:00:00.000Z'', commitSha = ''abc1234'',
           success = False, error = Some ''Failed to publish to Roblox''\<rparr>]"
  using record_only_when_publish_reached [of "noArtifactWorld [7]" freshSys "sampleRun 7"]
    record_only_when_publish_reached [of "badZipWorld [7]" freshSys "sampleRun 7"]
    record_only_when_publish_reached [of "rejectWorld [5]" freshSys "sampleRun 5"]
  by (simp add: reject_tick noArtifact_tick badZip_tick)

text \<open>
  C1 as stated fails: run 7 is the candidate, the attempt ends at the artifact download
  (or at the extraction), and the history is still empty afterwards.
\<close>

theorem no_record_without_artifact:
  "attempted freshSys [noArtifactWorld [7]] = [7]
   \<and> fst (processNewRun (noArtifactWorld [7]) freshSys) = SkippedNoArtifact
   \<and> deploymentHistory (state (snd (processNewRun (noArtifactWorld [7]) freshSys))) = []
   \<and> attempted freshSys [badZipWorld [7]] = [7]
   \<and> fst (processNewRun (badZipWorld [7]) freshSys) = SkippedExtractionFailed
   \<and> deploymentHistory (state (snd (processNewRun (badZipWorld [7]) freshSys))) = []"
  by (simp add: noArtifact_tick badZip_tick)
    (simp add: world_simps getLatestSuccessfulRun_def)

subsection \<open>C2: a processed run is marked and saved; when it is not attempted again\<close>




subsection \<open>C3: what is recorded when the publish is rejected\<close>

text \<open>
  C3, amended. When the publish endpoint answers with a response that is not \<open>ok\<close>, the
  entry appended for the run has \<open>success = False\<close> and the fixed reason
  \<open>Failed to publish to Roblox\<close>; the error text of the response is not part of it.
\<close>

theorem publish_rejection_recorded:
  assumes "getLatestSuccessfulRun w (state sys) = Some run"
    and "downloadArtifact w (run_id run) = Some zipBuffer"
    and "extractPlaceFile w zipBuffer = Some placeBuffer"
    and "fetchPublish w placeBuffer = Inr response"
    and "\<not> ok response"
  shows "fst (processNewRun w sys) = DeploymentCompleted False
    \<and> deploymentHistory (state (snd (processNewRun w sys)))
        = keepLast50 (deploymentHistory (state sys)
            @ [\<lparr>runId = run_id run, deployedAt = nowISO w, commitSha = head_sha run,
                success = False, error = Some ''Failed to publish to Roblox''\<rparr>])
    \<and> last (deploymentHistory (state (snd (processNewRun w sys))))
        = \<lparr>runId = run_id run, deployedAt = nowISO w, commitSha = head_sha run,
            success = False, error = Some ''Failed to publish to Roblox''\<rparr>"
proof -
  have "publishToRoblox w placeBuffer = False"
    using assms(4,5) by (simp add: publishToRoblox_def split: sum.splits)
  with reaches_publish [OF assms(1-3)] show ?thesis
    by (simp add: keepLast50_snoc_last deploymentRecord_def)
qed

text \<open>The rejected publish of run 5.\<close>

theorem publish_rejection_recorded_witness:
  "fst (processNewRun (rejectWorld [5]) freshSys) = DeploymentCompleted False
   \<and> last (deploymentHistory (state (snd (processNewRun (rejectWorld [5]) freshSys))))
       = \<lparr>runId = 5, deployedAt = ''2024-01-01T00:00:00.000Z'', commitSha = ''abc1234'',
           success = False, error = Some ''Failed to publish to Roblox''\<rparr>"
proof -
  have 1: "getLatestSuccessfulRun (rejectWorld [5]) (state freshSys) = Some (sampleRun 5)"
    by (simp add: world_simps getLatestSuccessfulRun_def)
  have 2: "downloadArtifact (rejectWorld [5]) (run_id (sampleRun 5)) = Some [80, 75]"
    by (simp add: world_simps downloadArtifact_def)
  have 3: "extractPlaceFile (rejectWorld [5]) [80, 75] = Some [60, 114]"
    by (simp add: world_simps extractPlaceFile_def)
  have 4: "fetchPublish (rejectWorld [5]) [60, 114] = Inr rejectResponse"
    by (simp add: world_simps)
  have 5: "\<not> ok rejectResponse"
    by (simp add: rejectResponse_def)
  have 6: "nowISO (rejectWorld [5]) = ''2024-01-01T00:00:00.000Z''"
    by (simp add: world_simps)
  from publish_rejection_recorded [OF 1 2 3 4 5] show ?thesis
    by (simp add: 6 sampleRun_def keepLast50_snoc_last)
qed

text \<open>
  C3 as stated fails: the endpoint reports \<open>Invalid API key\<close>, and the reason recorded is
  \<open>Failed to publish to Roblox\<close>.
\<close>

theorem reported_error_not_recorded:
  "fetchPublish (rejectWorld [5]) [60, 114] = Inr rejectResponse
   \<and> \<not> ok rejectResponse
   \<and> body_text rejectResponse = Inr ''Invalid API key''
   \<and> map error (deploymentHistory (state (snd (processNewRun (rejectWorld [5]) freshSys))))
       = [Some ''Failed to publish to Roblox'']
   \<and> Some ''Invalid API key''
       \<notin> set (map error (deploymentHistory (state (snd (processNewRun (rejectWorld [5]) freshSys)))))"
  by (simp add: reject_tick) (simp add: world_simps)

subsection \<open>C4: nothing new\<close>

text \<open>
  C4. In a state whose \<open>lastProcessedRunId\<close> is a number \<open>lp\<close> other than \<open>0\<close>, a tick
  whose listing is empty or has a newest run with identifier at most \<open>lp\<close> reports that
  there are no new runs and leaves the state and the state file as they were; doing it
  again, any number of times, gives the same.
\<close>

theorem no_new_build_unchanged:
  assumes "lastProcessedRunId (state sys) = Some lp" and "lp \<noteq> 0"
    and "listWorkflowRunsForRepo w = Inr runs"
    and "runs = [] \<or> run_id (hd runs) \<le> lp"
  shows "processNewRun w sys = (NoNewRuns, sys)
    \<and> processNewRun w (snd (processNewRun w sys)) = processNewRun w sys
    \<and> ticks sys (replicate n w) = sys
    \<and> outcomes sys (replicate n w) = replicate n NoNewRuns"
proof -
  have none: "getLatestSuccessfulRun w (state sys) = None"
    using assms by (cases runs) (auto simp: getLatestSuccessfulRun_def)
  then have one: "processNewRun w sys = (NoNewRuns, sys)"
    by (rule processNewRun_NoNew)
  have "\<forall>w' \<in> set (replicate n w). getLatestSuccessfulRun w' (state sys) = None"
    using none by simp
  from quiet_ticks [OF this] one show ?thesis by simp
qed

text \<open>With run 42 processed, a listing of runs 42 and 41 changes nothing.\<close>

theorem no_new_build_unchanged_witness:
  "processNewRun (deployWorld [42, 41]) (freshSys\<lparr>state := initialState\<lparr>lastProcessedRunId := Some 42\<rparr>\<rparr>)
     = (NoNewRuns, freshSys\<lparr>state := initialState\<lparr>lastProcessedRunId := Some 42\<rparr>\<rparr>)
   \<and> ticks (freshSys\<lparr>state := initialState\<lparr>lastProcessedRunId := Some 42\<rparr>\<rparr>)
        (replicate 3 (deployWorld [42, 41]))
     = freshSys\<lparr>state := initialState\<lparr>lastProcessedRunId := Some 42\<rparr>\<rparr>"
  using no_new_build_unchanged [of "freshSys\<lparr>state := initialState\<lparr>lastProcessedRunId := Some 42\<rparr>\<rparr>"
      42 "deployWorld [42, 41]" "map sampleRun [42, 41]" 3]
  by (simp add: deployWorld_def sampleRun_def)

subsection \<open>C5: a failed listing\<close>

text \<open>
  C5, amended. When listing the runs throws, the tick reports that there are no new
  runs and changes neither the state nor the file, in any state; the ticks after it go
  as if it had not happened. From the initial state, a listing that throws on the first
  tick and has run 42 as its newest on the second leaves \<open>lastProcessedRunId = 42\<close>
  after the second tick; the history then has exactly one entry if the second tick
  reached the publish step, and none if it ended at the artifact download or at the
  extraction. The claim as stated promises one entry in every case.
\<close>

theorem discovery_failure_retried:
  assumes "listWorkflowRunsForRepo w1 = Inl e"
  shows "processNewRun w1 sys = (NoNewRuns, sys)
    \<and> ticks sys (w1 # ws) = ticks sys ws
    \<and> attempted sys (w1 # ws) = attempted sys ws
    \<and> (state sys0 = initialState \<and> listWorkflowRunsForRepo w2 = Inr (run # older)
          \<and> run_id run = 42 \<longrightarrow>
        attempted sys0 [w1, w2] = [42]
        \<and> lastProcessedRunId (state (ticks sys0 [w1, w2])) = Some 42
        \<and> (\<forall>b. outcomes sys0 [w1, w2] = [NoNewRuns, DeploymentCompleted b] \<longrightarrow>
              deploymentHistory (state (ticks sys0 [w1, w2]))
                = [deploymentRecord run (nowISO w2) b])
        \<and> (outcomes sys0 [w1, w2] = [NoNewRuns, SkippedNoArtifact]
              \<or> outcomes sys0 [w1, w2] = [NoNewRuns, SkippedExtractionFailed] \<longrightarrow>
              deploymentHistory (state (ticks sys0 [w1, w2])) = []))"
proof -
  have none: "getLatestSuccessfulRun w1 s = None" for s
    using assms by (simp add: getLatestSuccessfulRun_def)
  have quiet: "processNewRun w1 sys' = (NoNewRuns, sys')" for sys'
    using none by (rule processNewRun_NoNew)
  have scenario: "attempted sys0 [w1, w2] = [42]
        \<and> lastProcessedRunId (state (ticks sys0 [w1, w2])) = Some 42
        \<and> (\<forall>b. outcomes sys0 [w1, w2] = [NoNewRuns, DeploymentCompleted b] \<longrightarrow>
              deploymentHistory (state (ticks sys0 [w1, w2]))
                = [deploymentRecord run (nowISO w2) b])
        \<and> (outcomes sys0 [w1, w2] = [NoNewRuns, SkippedNoArtifact]
              \<or> outcomes sys0 [w1, w2] = [NoNewRuns, SkippedExtractionFailed] \<longrightarrow>
              deploymentHistory (state (ticks sys0 [w1, w2])) = [])"
    if fresh: "state sys0 = initialState"
      and runs: "listWorkflowRunsForRepo w2 = Inr (run # older)"
      and id: "run_id run = 42"
  proof -
    have cand: "getLatestSuccessfulRun w2 (state sys0) = Some run"
      using fresh runs by (simp add: getLatestSuccessfulRun_def initialState_def)
    have a: "attempted sys0 [w1, w2] = [42]"
      using none cand id by (simp add: quiet)
    have b: "lastProcessedRunId (state (ticks sys0 [w1, w2])) = Some 42"
      using lastProcessed_after_candidate [OF cand] id by (simp add: quiet)
    have c: "deploymentHistory (state (ticks sys0 [w1, w2]))
                = [deploymentRecord run (nowISO w2) b]"
      if "outcomes sys0 [w1, w2] = [NoNewRuns, DeploymentCompleted b]" for b
    proof -
      from that have "fst (processNewRun w2 sys0) = DeploymentCompleted b"
        by (simp add: quiet)
      then show ?thesis
        using cand fresh
        by (elim outcome_Completed) (simp add: quiet initialState_def keepLast50_single)
    qed
    have d: "deploymentHistory (state (ticks sys0 [w1, w2])) = []"
      if "outcomes sys0 [w1, w2] = [NoNewRuns, SkippedNoArtifact]
        \<or> outcomes sys0 [w1, w2] = [NoNewRuns, SkippedExtractionFailed]"
    proof -
      from that have "fst (processNewRun w2 sys0) = SkippedNoArtifact
          \<or> fst (processNewRun w2 sys0) = SkippedExtractionFailed"
        by (simp add: quiet)
      from history_after_skip [OF this] fresh show ?thesis
        by (simp add: quiet initialState_def)
    qed
    from a b c d show ?thesis by blast
  qed
  from quiet [of sys] none [of "state sys"] scenario show ?thesis
    by (simp del: ticks.simps(2) attempted.simps(2) outcomes.simps(2)
        add: ticks.simps(2) [of sys w1 ws] attempted.simps(2) [of sys w1 ws])
qed

text \<open>The listing throws, then run 42 deploys.\<close>

theorem discovery_failure_retried_witness:
  "processNewRun throwingWorld freshSys = (NoNewRuns, freshSys)
   \<and> lastProcessedRunId (state (ticks freshSys [throwingWorld, deployWorld [42]])) = Some 42
   \<and> deploymentHistory (state (ticks freshSys [throwingWorld, deployWorld [42]]))
       = [\<lparr>runId = 42, deployedAt = ''2024-01-01T00:00:00.000Z'', commitSha = ''abc1234'',
           success = True, error = None\<rparr>]"
proof -
  have 1: "listWorkflowRunsForRepo throwingWorld = Inl Thrown"
    by (simp add: throwingWorld_def)
  have 2: "state freshSys = initialState"
    by (simp add: freshSys_def)
  have 3: "listWorkflowRunsForRepo (deployWorld [42]) = Inr (sampleRun 42 # [])"
    by (simp add: deployWorld_def)
  have 4: "run_id (sampleRun 42) = 42"
    by (simp add: sampleRun_def)
  have 5: "outcomes freshSys [throwingWorld, deployWorld [42]]
      = [NoNewRuns, DeploymentCompleted True]"
    by (simp add: throwing_tick deploy_tick_42)
  have 6: "deploymentRecord (sampleRun 42) (nowISO (deployWorld [42])) True
      = \<lparr>runId = 42, deployedAt = ''2024-01-01T00:00:00.000Z'', commitSha = ''abc1234'',
           success = True, error = None\<rparr>"
    by (simp add: deploymentRecord_def sampleRun_def deployWorld_def)
  note t = discovery_failure_retried [OF 1, of freshSys "[]" freshSys "deployWorld [42]"
      "sampleRun 42" "[]"]
  from t have a: "processNewRun throwingWorld freshSys = (NoNewRuns, freshSys)"
    by blast
  from t 2 3 4 have b:
    "lastProcessedRunId (state (ticks freshSys [throwingWorld, deployWorld [42]])) = Some 42"
    by blast
  from t 2 3 4 5 have "deploymentHistory (state (ticks freshSys [throwingWorld, deployWorld [42]]))
       = [deploymentRecord (sampleRun 42) (nowISO (deployWorld [42])) True]"
    by blast
  with a b show ?thesis
    by (simp only: 6 simp_thms)
qed

text \<open>
  C5 as stated fails: the listing throws, then run 42 is listed but has no artifact; run
  42 is marked as processed and the history is empty.
\<close>

theorem retried_build_without_artifact:
  "listWorkflowRunsForRepo throwingWorld = Inl Thrown
   \<and> listWorkflowRunsForRepo (noArtifactWorld [42]) = Inr [sampleRun 42]
   \<and> lastProcessedRunId (state (ticks freshSys [throwingWorld, noArtifactWorld [42]])) = Some 42
   \<and> deploymentHistory (state (ticks freshSys [throwingWorld, noArtifactWorld [42]])) = []"
  by (simp add: throwing_tick noArtifact_tick_42)
    (simp add: throwingWorld_def noArtifactWorld_def deployWorld_def)

subsection \<open>C6: the history is bounded\<close>

text \<open>
  C6. From a state whose history has at most 50 entries, the history has at most 50
  entries after a tick, and after any number of ticks. After 60 ticks that each
  completed a successful deployment, it has exactly 50 entries: the entries of the last
  50 of these deployments, in the order of the ticks.
\<close>

theorem history_bounded:
  assumes "length (deploymentHistory (state sys)) \<le> 50"
  shows "length (deploymentHistory (state (snd (processNewRun w sys)))) \<le> 50
    \<and> length (deploymentHistory (state (ticks sys ws))) \<le> 50
    \<and> (outcomes sys ws = replicate 60 (DeploymentCompleted True) \<longrightarrow>
          length (deploymentHistory (state (ticks sys ws))) = 50
          \<and> map Some (deploymentHistory (state (ticks sys ws)))
              = drop 10 (map expectedRecord ws))"
proof (intro conjI impI)
  show "length (deploymentHistory (state (snd (processNewRun w sys)))) \<le> 50"
    using assms by (rule step_history_bound)
  show "length (deploymentHistory (state (ticks sys ws))) \<le> 50"
    using assms by (induction ws arbitrary: sys) (auto simp: step_history_bound)
  assume out: "outcomes sys ws = replicate 60 (DeploymentCompleted True)"
  have len: "length ws = 60"
    using length_outcomes [of sys ws] out by simp
  then have ne: "ws \<noteq> []" by auto
  from history_of_deployments [OF out] ne
  have "map Some (deploymentHistory (state (ticks sys ws)))
      = keepLast50 (map Some (deploymentHistory (state sys)) @ map expectedRecord ws)"
    by simp
  also have "\<dots> = drop 10 (map expectedRecord ws)"
    using assms len by (simp add: keepLast50_drop)
  finally show eq: "map Some (deploymentHistory (state (ticks sys ws)))
      = drop 10 (map expectedRecord ws)" .
  from arg_cong [OF eq, of length] len
  show "length (deploymentHistory (state (ticks sys ws))) = 50"
    by simp
qed

text \<open>Sixty deployments of the runs 1 to 60 from the initial state leave the runs 11 to 60.\<close>

theorem history_bounded_witness:
  "length (deploymentHistory (state (ticks freshSys sixtyWorlds))) = 50
   \<and> map runId (deploymentHistory (state (ticks freshSys sixtyWorlds))) = [11..60]"
proof -
  have 1: "length (deploymentHistory (state freshSys)) \<le> 50"
    by (simp add: freshSys_def initialState_def)
  from history_bounded [OF 1, of _ sixtyWorlds] sixty_outcomes
  have len: "length (deploymentHistory (state (ticks freshSys sixtyWorlds))) = 50"
    and eq: "map Some (deploymentHistory (state (ticks freshSys sixtyWorlds)))
              = drop 10 (map expectedRecord sixtyWorlds)"
    by blast+
  have "map Some (map runId (deploymentHistory (state (ticks freshSys sixtyWorlds))))
      = map (map_option runId) (map Some (deploymentHistory (state (ticks freshSys sixtyWorlds))))"
    by simp
  also have "\<dots> = map Some [11..60]"
    by (simp only: eq sixty_expected)
  finally have "map runId (deploymentHistory (state (ticks freshSys sixtyWorlds))) = [11..60]"
    by (simp only: inj_map_eq_map [OF inj_Some])
  with len show ?thesis by blast
qed

subsection \<open>C7: only the newest listed run is considered\<close>

text \<open>
  C7. A call takes its candidate from the head of its own listing and carries that run,
  and no other, through its later steps. When \<open>main\<close>'s first call lists run 10 followed
  by run 9 and the guard does not hold run 10 back (nothing processed yet, or
  \<open>lastProcessedRunId\<close> is \<open>0\<close> or below 10), then after that call
  \<open>lastProcessedRunId\<close> is 10 and nothing is in flight; and from then on, whatever the
  timer ticks list and however they overlap, every pipeline call ever made (download,
  extraction, publish) is for run 10 or a later run, \<open>lastProcessedRunId\<close> stays at 10
  or above, and every history entry that was not there before the first call is for run
  10 or a later run. Run 9 is never downloaded, extracted, published or recorded.
\<close>

theorem only_newest_processed:
  assumes "listWorkflowRunsForRepo w = Inr (r10 # r9 # rest)"
    and "run_id r10 = 10" and "run_id r9 = 9"
    and "case lastProcessedRunId (state sys) of None \<Rightarrow> True | Some lp \<Rightarrow> lp = 0 \<or> lp < 10"
  shows "(\<forall>p'. resume (AwaitRuns w') sys' = (Waiting p', sys'') \<longrightarrow>
            (\<exists>newest older. listWorkflowRunsForRepo w' = Inr (newest # older)
               \<and> p' = AwaitArtifact w' newest))
    \<and> (\<forall>p'. resume p sys' = (Waiting p', sys'') \<and> candidate p \<noteq> None \<longrightarrow>
            candidate p' = candidate p)
    \<and> lastProcessedRunId (state (shared (startup w sys))) = Some 10
    \<and> pending (startup w sys) = []
    \<and> (\<forall>evs.
          (\<forall>e \<in> set (effects (execute (startup w sys) evs)). 10 \<le> effectRun e)
          \<and> (\<exists>v. lastProcessedRunId (state (shared (execute (startup w sys) evs))) = Some v
                \<and> 10 \<le> v)
          \<and> (\<forall>r \<in> set (deploymentHistory (state (shared (execute (startup w sys) evs)))).
                r \<in> set (deploymentHistory (state sys)) \<or> 10 \<le> runId r))"
proof -
  have head: "\<exists>newest older. listWorkflowRunsForRepo w' = Inr (newest # older)
      \<and> p' = AwaitArtifact w' newest"
    if "resume (AwaitRuns w') sys' = (Waiting p', sys'')" for p'
    using that getLatest_listed [of w' "state sys'"]
    by (auto split: option.splits)
  have carried: "candidate p' = candidate p"
    if "resume p sys' = (Waiting p', sys'')" and "candidate p \<noteq> None" for p'
    using that by (cases p) (auto split: option.splits simp: Let_def)
  have cand: "getLatestSuccessfulRun w (state sys) = Some r10"
    using assms by (auto simp: getLatestSuccessfulRun_def split: option.splits)
  note st = startup_alone [of w sys]
  have lp: "lastProcessedRunId (state (shared (startup w sys))) = Some 10"
    using st lastProcessed_after_candidate [OF cand] assms(2) by simp
  have none: "pending (startup w sys) = []"
    using st by simp
  have eff0: "\<forall>e \<in> set (effects (startup w sys)). effectRun e = 10"
    using st cand assms(2) by auto
  define H where "H = set (deploymentHistory (state sys)) \<union> {r. runId r = 10}"
  have "\<forall>r \<in> set (deploymentHistory (state (shared (startup w sys)))). r \<in> H \<or> 10 < runId r"
    using st history_after_call [of _ w sys] cand assms(2) by (auto simp: H_def)
  with lp none have inv: "settled 10 H (startup w sys)"
    by (simp add: settled_def olderInFlight_iff)
  have later: "(\<forall>e \<in> set (effects (execute (startup w sys) evs)). 10 \<le> effectRun e)
          \<and> (\<exists>v. lastProcessedRunId (state (shared (execute (startup w sys) evs))) = Some v
                \<and> 10 \<le> v)
          \<and> (\<forall>r \<in> set (deploymentHistory (state (shared (execute (startup w sys) evs)))).
                r \<in> set (deploymentHistory (state sys)) \<or> 10 \<le> runId r)" for evs
  proof -
    from execute_settled [OF inv, of evs]
    obtain new where 1: "settled 10 H (execute (startup w sys) evs)"
      and 2: "effects (execute (startup w sys) evs) = effects (startup w sys) @ new"
      and 3: "\<forall>x \<in> set new. 10 < effectRun x"
      by auto
    from 2 3 eff0 have a: "\<forall>e \<in> set (effects (execute (startup w sys) evs)). 10 \<le> effectRun e"
      by auto
    from 1 have b: "\<exists>v. lastProcessedRunId (state (shared (execute (startup w sys) evs))) = Some v
                \<and> 10 \<le> v"
      by (simp add: settled_def)
    from 1 have c: "\<forall>r \<in> set (deploymentHistory (state (shared (execute (startup w sys) evs)))).
                r \<in> set (deploymentHistory (state sys)) \<or> 10 \<le> runId r"
      by (auto simp: settled_def H_def)
    from a b c show ?thesis by blast
  qed
  from head carried lp none later show ?thesis
    by blast
qed

text \<open>
  After the first call on runs 10 and 9, overlapping ticks list run 9 as newest twice and
  run 11 once: only run 11 is processed.
\<close>

theorem only_newest_processed_witness:
  "lastProcessedRunId (state (shared (startup (deployWorld [10, 9]) freshSys))) = Some 10
   \<and> DownloadArtifact 9
       \<notin> set (effects (execute (startup (deployWorld [10, 9]) freshSys) laterEvents))
   \<and> 9 \<notin> runId ` set (deploymentHistory (state (shared
        (execute (startup (deployWorld [10, 9]) freshSys) laterEvents))))
   \<and> map runId (deploymentHistory (state (shared
        (execute (startup (deployWorld [10, 9]) freshSys) laterEvents)))) = [10, 11]"
proof -
  have 1: "listWorkflowRunsForRepo (deployWorld [10, 9]) = Inr (sampleRun 10 # sampleRun 9 # [])"
    by (simp add: deployWorld_def)
  have 2: "run_id (sampleRun 10) = 10" and 3: "run_id (sampleRun 9) = 9"
    by (simp_all add: sampleRun_def)
  have 4: "case lastProcessedRunId (state freshSys) of None \<Rightarrow> True
      | Some lp \<Rightarrow> lp = 0 \<or> lp < 10"
    by (simp add: freshSys_def initialState_def)
  have 5: "deploymentHistory (state freshSys) = []"
    by (simp add: freshSys_def initialState_def)
  note t = only_newest_processed [OF 1 2 3 4]
  from t have a: "lastProcessedRunId (state (shared (startup (deployWorld [10, 9]) freshSys)))
      = Some 10"
    by blast
  from t have "\<forall>e \<in> set (effects (execute (startup (deployWorld [10, 9]) freshSys) laterEvents)).
      10 \<le> effectRun e"
    by blast
  then have b: "DownloadArtifact 9
       \<notin> set (effects (execute (startup (deployWorld [10, 9]) freshSys) laterEvents))"
    by fastforce
  from t have "\<forall>r \<in> set (deploymentHistory (state (shared
        (execute (startup (deployWorld [10, 9]) freshSys) laterEvents)))).
      r \<in> set (deploymentHistory (state freshSys)) \<or> 10 \<le> runId r"
    by blast
  then have c: "9 \<notin> runId ` set (deploymentHistory (state (shared
        (execute (startup (deployWorld [10, 9]) freshSys) laterEvents))))"
    unfolding 5 by fastforce
  from a b c later_evaluated show ?thesis by blast
qed

subsection \<open>C8: \<open>lastProcessedRunId\<close> and overlapping calls\<close>

text \<open>
  C8 says that \<open>lastProcessedRunId\<close>, once set, never decreases when the Build Source
  returns positive, increasing identifiers. For calls that do not overlap this holds
  (\<open>ticks_monotone\<close> above). The timer does not wait for the previous call, and for
  calls that overlap the code does this: \<open>main\<close>'s first call deploys run 6; a tick
  lists runs 7 and 6, passes the guard with run 7 and waits for its download; the next
  tick lists runs 8, 7 and 6, passes the guard with run 8, finds no artifact and sets
  \<open>lastProcessedRunId\<close> to 8; then the first tick's download, extraction and publish
  complete and it sets \<open>lastProcessedRunId\<close> to 7.
\<close>

theorem overlap_lowers_lastProcessed:
  "map run_id (listed (deployWorld [7, 6])) = [7, 6]
   \<and> map run_id (listed (noArtifactWorld [8, 7, 6])) = [8, 7, 6]
   \<and> lastProcessedRunId (state (shared (startup (deployWorld [6]) freshSys))) = Some 6
   \<and> lastProcessedRunId (state (shared
        (execute (startup (deployWorld [6]) freshSys) overlapEvents))) = Some 8
   \<and> lastProcessedRunId (state (shared
        (execute (startup (deployWorld [6]) freshSys)
           (overlapEvents @ [Resolve 0, Resolve 0, Resolve 0])))) = Some 7
   \<and> map runId (deploymentHistory (state (shared
        (execute (startup (deployWorld [6]) freshSys)
           (overlapEvents @ [Resolve 0, Resolve 0, Resolve 0]))))) = [6, 7]"
  by code_simp

subsection \<open>C9: \<open>lastDeployedAt\<close>\<close>

text \<open>
  C9. An attempt that reaches the publish step sets \<open>lastDeployedAt\<close> to the current
  time, whatever the publish returns; an attempt that ends at the artifact download or at
  the extraction leaves \<open>lastDeployedAt\<close> and the history as they were.
\<close>

theorem lastDeployedAt_frame:
  assumes "getLatestSuccessfulRun w (state sys) = Some run"
  shows "(\<forall>zipBuffer placeBuffer. downloadArtifact w (run_id run) = Some zipBuffer
            \<and> extractPlaceFile w zipBuffer = Some placeBuffer \<longrightarrow>
          fst (processNewRun w sys) = DeploymentCompleted (publishToRoblox w placeBuffer)
          \<and> lastDeployedAt (state (snd (processNewRun w sys))) = Some (nowISO w))
    \<and> (downloadArtifact w (run_id run) = None
          \<or> (\<exists>zipBuffer. downloadArtifact w (run_id run) = Some zipBuffer
                \<and> extractPlaceFile w zipBuffer = None) \<longrightarrow>
        lastDeployedAt (state (snd (processNewRun w sys))) = lastDeployedAt (state sys)
        \<and> deploymentHistory (state (snd (processNewRun w sys)))
            = deploymentHistory (state sys))"
  using assms by (cases w sys rule: processNewRun_cases) auto

text \<open>A rejected publish, a run without artifact, an archive without \<open>place.rbxl\<close>.\<close>

theorem lastDeployedAt_frame_witness:
  "fst (processNewRun (rejectWorld [5]) freshSys) = DeploymentCompleted False
   \<and> lastDeployedAt (state (snd (processNewRun (rejectWorld [5]) freshSys)))
     = Some ''2024-01-01T00:00:00.000Z''
   \<and> lastDeployedAt (state (snd (processNewRun (noArtifactWorld [7]) freshSys))) = None
   \<and> deploymentHistory (state (snd (processNewRun (badZipWorld [7]) freshSys))) = []"
proof -
  have 1: "getLatestSuccessfulRun (rejectWorld [5]) (state freshSys) = Some (sampleRun 5)"
    and 2: "getLatestSuccessfulRun (noArtifactWorld [7]) (state freshSys) = Some (sampleRun 7)"
    and 3: "getLatestSuccessfulRun (badZipWorld [7]) (state freshSys) = Some (sampleRun 7)"
    by (simp_all add: world_simps getLatestSuccessfulRun_def)
  have 4: "downloadArtifact (rejectWorld [5]) (run_id (sampleRun 5)) = Some [80, 75]"
    and 5: "extractPlaceFile (rejectWorld [5]) [80, 75] = Some [60, 114]"
    and 6: "downloadArtifact (noArtifactWorld [7]) (run_id (sampleRun 7)) = None"
    and 7: "downloadArtifact (badZipWorld [7]) (run_id (sampleRun 7)) = Some [80, 75]"
    and 8: "extractPlaceFile (badZipWorld [7]) [80, 75] = None"
    by (simp_all add: world_simps downloadArtifact_def extractPlaceFile_def)
  have 9: "publishToRoblox (rejectWorld [5]) [60, 114] = False"
    and 10: "nowISO (rejectWorld [5]) = ''2024-01-01T00:00:00.000Z''"
    and 11: "lastDeployedAt (state freshSys) = None"
    and 12: "deploymentHistory (state freshSys) = []"
    by (simp_all add: world_simps publishToRoblox_def)
  from lastDeployedAt_frame [OF 1] 4 5
  have a: "fst (processNewRun (rejectWorld [5]) freshSys)
        = DeploymentCompleted (publishToRoblox (rejectWorld [5]) [60, 114])
      \<and> lastDeployedAt (state (snd (processNewRun (rejectWorld [5]) freshSys)))
        = Some (nowISO (rejectWorld [5]))"
    by blast
  from lastDeployedAt_frame [OF 2] 6
  have b: "lastDeployedAt (state (snd (processNewRun (noArtifactWorld [7]) freshSys)))
      = lastDeployedAt (state freshSys)"
    by blast
  from lastDeployedAt_frame [OF 3] 7 8
  have c: "deploymentHistory (state (snd (processNewRun (badZipWorld [7]) freshSys)))
      = deploymentHistory (state freshSys)"
    by blast
  from a b c show ?thesis
    by (simp only: 9 10 11 12 simp_thms)
qed

subsection \<open>C10: the guard tests truthiness\<close>

text \<open>
  C10. With a non-empty listing, \<open>getLatestSuccessfulRun\<close> holds the newest run back
  exactly when \<open>lastProcessedRunId\<close> is a number other than \<open>0\<close> and the run's identifier
  is at most that number. When \<open>lastProcessedRunId\<close> is \<open>0\<close> (or \<open>null\<close>) the newest run
  is the candidate, whatever its identifier.
\<close>

theorem guard_applies_iff:
  assumes "listWorkflowRunsForRepo w = Inr (latestRun # older)"
  shows "(lastProcessedRunId s = Some 0 \<longrightarrow> getLatestSuccessfulRun w s = Some latestRun)
    \<and> (lastProcessedRunId s = None \<longrightarrow> getLatestSuccessfulRun w s = Some latestRun)
    \<and> (getLatestSuccessfulRun w s = None \<longleftrightarrow>
         (\<exists>lp. lastProcessedRunId s = Some lp \<and> lp \<noteq> 0 \<and> run_id latestRun \<le> lp))"
  using assms by (auto simp: getLatestSuccessfulRun_def split: option.splits if_splits)

text \<open>Run \<open>-5\<close> is the candidate when \<open>lastProcessedRunId\<close> is 0, and held back when it is 7.\<close>

theorem guard_applies_iff_witness:
  "getLatestSuccessfulRun (deployWorld [-5, -6]) (initialState\<lparr>lastProcessedRunId := Some 0\<rparr>)
     = Some (sampleRun (-5))
   \<and> getLatestSuccessfulRun (deployWorld [-5, -6]) (initialState\<lparr>lastProcessedRunId := Some 7\<rparr>)
     = None"
  using guard_applies_iff [of "deployWorld [-5, -6]" "sampleRun (-5)" "[sampleRun (-6)]"
      "initialState\<lparr>lastProcessedRunId := Some 0\<rparr>"]
    guard_applies_iff [of "deployWorld [-5, -6]" "sampleRun (-5)" "[sampleRun (-6)]"
      "initialState\<lparr>lastProcessedRunId := Some 7\<rparr>"]
  by (simp add: deployWorld_def sampleRun_def)

end
